theory Spec2Isabelle
  imports Complex_Main "HOL-Library.AList" "HOL-Library.List_Lexorder" "HOL-Library.Char_ord"
begin

section \<open>Python values used by heredity.py\<close>

text \<open>
  The program computes with Python floats; the model computes with the real numbers,
  so every equation below is an equation of exact arithmetic. Exceptions are values:
  a function that can raise returns \<open>error + 'a\<close>, with \<open>Inl\<close> for the exception.
\<close>

datatype error = KeyError | ZeroDivisionError

text \<open>A dict is an association list in insertion order; \<open>d[k]\<close> raises on a missing key.\<close>

definition getitem :: "('k \<times> 'v) list \<Rightarrow> 'k \<Rightarrow> error + 'v" where
  "getitem d k = (case map_of d k of None \<Rightarrow> Inl KeyError | Some v \<Rightarrow> Inr v)"

text \<open>Sequencing: an exception on the left is passed on, a value is handed to the rest.\<close>

definition and_then :: "error + 'a \<Rightarrow> ('a \<Rightarrow> error + 'b) \<Rightarrow> error + 'b" where
  "and_then m f = (case m of Inl e \<Rightarrow> Inl e | Inr v \<Rightarrow> f v)"

text \<open>A \<open>for\<close> loop whose body can raise: the first exception ends the loop.\<close>

fun for_each :: "('a \<Rightarrow> 's \<Rightarrow> error + 's) \<Rightarrow> 'a list \<Rightarrow> 's \<Rightarrow> error + 's" where
  "for_each body [] s = Inr s"
| "for_each body (x # xs) s =
     (case body x s of Inl e \<Rightarrow> Inl e | Inr s' \<Rightarrow> for_each body xs s')"

text \<open>\<open>x in s\<close> for a set of names \<open>s\<close>, where \<open>x\<close> may be \<open>None\<close>.\<close>

fun py_in :: "string option \<Rightarrow> string set \<Rightarrow> bool" where
  "py_in None s = False"
| "py_in (Some x) s = (x \<in> s)"

section \<open>Model parameters: \<open>PROBS\<close>\<close>

definition PROBS_gene :: "(int \<times> real) list" where
  "PROBS_gene = [(2, 0.01), (1, 0.03), (0, 0.96)]"

definition PROBS_trait :: "(int \<times> (bool \<times> real) list) list" where
  "PROBS_trait =
     [(2, [(True, 0.65), (False, 0.35)]),
      (1, [(True, 0.56), (False, 0.44)]),
      (0, [(True, 0.01), (False, 0.99)])]"

definition PROBS_mutation :: real where
  "PROBS_mutation = 0.01"

section \<open>The pedigree: \<open>people\<close>\<close>

record person =
  name :: string
  mother :: "string option"
  father :: "string option"
  trait :: "bool option"

type_synonym people = "(string \<times> person) list"

section \<open>\<open>joint_probability\<close>\<close>

text \<open>\<open>1 if person in one_gene else 2 if person in two_genes else 0\<close>, lines 117, 133 and 162.\<close>

definition gene_number_of :: "string set \<Rightarrow> string set \<Rightarrow> string option \<Rightarrow> int" where
  "gene_number_of one_gene two_genes ppl =
     (if py_in ppl one_gene then 1 else if py_in ppl two_genes then 2 else 0)"

text \<open>Line 134-135: the conditional expression binds weaker than \<open>+\<close>.\<close>

definition perc_of :: "int \<Rightarrow> real" where
  "perc_of number =
     (if number = 0 then 0 + PROBS_mutation else if number = 1 then 0.5 else 1 - PROBS_mutation)"

text \<open>Lines 130-136: the dict \<open>percentages\<close>, filled for \<open>ppl in [mother, father]\<close>.\<close>

definition percentages_of ::
  "string set \<Rightarrow> string set \<Rightarrow> string option list \<Rightarrow> (string option \<times> real) list" where
  "percentages_of one_gene two_genes ppls =
     fold (\<lambda>ppl percentages.
             AList.update ppl (perc_of (gene_number_of one_gene two_genes ppl)) percentages)
          ppls []"

text \<open>Lines 138-147: the factor for the child's gene count, from the two parents' entries.\<close>

definition inherit :: "int \<Rightarrow> real \<Rightarrow> real \<Rightarrow> real" where
  "inherit gene_number pm pf =
     (if gene_number = 0 then (1 - pm) * (1 - pf)
      else if gene_number = 1 then (1 - pm) * pf + pm * (1 - pf)
      else pm * pf)"

text \<open>The body of the loop \<open>for person in people\<close>, lines 117-149.\<close>

definition joint_body ::
  "people \<Rightarrow> string set \<Rightarrow> string set \<Rightarrow> string set \<Rightarrow> string \<Rightarrow> real \<Rightarrow> error + real" where
  "joint_body people one_gene two_genes have_trait person probability =
     (let gene_number = gene_number_of one_gene two_genes (Some person);
          trait_v = (if person \<in> have_trait then True else False)
      in and_then (getitem PROBS_gene gene_number) (\<lambda>gene_numb_prop.
         and_then (getitem PROBS_trait gene_number) (\<lambda>row.
         and_then (getitem row trait_v) (\<lambda>trait_prop.
         and_then (getitem people person) (\<lambda>info.
           if mother info = None then Inr (probability * (gene_numb_prop * trait_prop))
           else
             let percentages = percentages_of one_gene two_genes [mother info, father info]
             in and_then (getitem percentages (mother info)) (\<lambda>pm.
                and_then (getitem percentages (father info)) (\<lambda>pf.
                  Inr (probability * inherit gene_number pm pf * trait_prop))))))))"

definition joint_probability ::
  "people \<Rightarrow> string set \<Rightarrow> string set \<Rightarrow> string set \<Rightarrow> error + real" where
  "joint_probability people one_gene two_genes have_trait =
     for_each (joint_body people one_gene two_genes have_trait) (map fst people) 1"

section \<open>\<open>powerset\<close>\<close>

text \<open>
  \<open>itertools.combinations(s, r)\<close>: the \<open>r\<close>-element subsequences of \<open>s\<close>, those with the
  first element first.
\<close>

fun combinations :: "'a list \<Rightarrow> nat \<Rightarrow> 'a list list" where
  "combinations xs 0 = [[]]"
| "combinations [] (Suc r) = []"
| "combinations (x # xs) (Suc r) =
     map ((#) x) (combinations xs r) @ combinations xs (Suc r)"

text \<open>
  \<open>list(s)\<close> of a Python set lists its elements once each, in an order the language leaves
  open. The model takes the sorted order; no property below depends on the choice.
\<close>

definition powerset :: "'a::linorder set \<Rightarrow> 'a set list" where
  "powerset s =
     (let s = sorted_list_of_set s
      in map set (concat (map (combinations s) [0..<length s + 1])))"

section \<open>The probabilities table\<close>

text \<open>
  The innermost dicts of \<open>probabilities\<close> (one for \<open>"gene"\<close>, one for \<open>"trait"\<close>, per
  person) are the only objects the program mutates, so they live in a store and are
  reached through references. The dicts above them are never written after they are
  built: they are values whose entries are names and references.
\<close>

type_synonym ref = nat

datatype key = Copies int | Flag bool

record heap =
  buckets :: "ref \<Rightarrow> (key \<times> real) list"
  next_ref :: ref

type_synonym table = "(string \<times> (string \<times> ref) list) list"

definition empty_heap :: heap where
  "empty_heap = \<lparr>buckets = (\<lambda>r. []), next_ref = 0\<rparr>"

definition alloc :: "(key \<times> real) list \<Rightarrow> heap \<Rightarrow> ref \<times> heap" where
  "alloc d h =
     (next_ref h, h\<lparr>buckets := (buckets h)(next_ref h := d), next_ref := next_ref h + 1\<rparr>)"

text \<open>\<open>probabilities[person][typ]\<close>: the reference of a bucket dict.\<close>

definition bucket_ref :: "table \<Rightarrow> string \<Rightarrow> string \<Rightarrow> error + ref" where
  "bucket_ref probabilities person typ =
     and_then (getitem probabilities person) (\<lambda>dists. getitem dists typ)"

text \<open>\<open>probabilities[person][typ][category] = v\<close>.\<close>

definition setitem :: "table \<Rightarrow> string \<Rightarrow> string \<Rightarrow> key \<Rightarrow> real \<Rightarrow> heap \<Rightarrow> error + heap" where
  "setitem probabilities person typ category v h =
     and_then (bucket_ref probabilities person typ) (\<lambda>b.
       Inr (h\<lparr>buckets := (buckets h)(b := AList.update category v (buckets h b))\<rparr>))"

text \<open>\<open>probabilities[person][typ][category]\<close>.\<close>

definition getbucket :: "table \<Rightarrow> string \<Rightarrow> string \<Rightarrow> key \<Rightarrow> heap \<Rightarrow> error + real" where
  "getbucket probabilities person typ category h =
     and_then (bucket_ref probabilities person typ) (\<lambda>b. getitem (buckets h b) category)"

text \<open>Lines 28-34: the dict comprehension of \<open>main\<close>, a fresh pair of dicts per person.\<close>

fun new_table :: "string list \<Rightarrow> heap \<Rightarrow> table \<times> heap" where
  "new_table [] h = ([], h)"
| "new_table (person # rest) h =
     (let (g, h) = alloc [(Copies 2, 0), (Copies 1, 0), (Copies 0, 0)] h;
          (t, h) = alloc [(Flag True, 0), (Flag False, 0)] h;
          (tab, h) = new_table rest h
      in ((person, [(''gene'', g), (''trait'', t)]) # tab, h))"

section \<open>\<open>update\<close>\<close>

text \<open>\<open>probabilities[person][typ][category] += p\<close>: a read, then a write.\<close>

definition add_item :: "table \<Rightarrow> string \<Rightarrow> string \<Rightarrow> key \<Rightarrow> real \<Rightarrow> heap \<Rightarrow> error + heap" where
  "add_item probabilities person typ category p h =
     and_then (getbucket probabilities person typ category h) (\<lambda>v.
       setitem probabilities person typ category (v + p) h)"

definition update ::
  "table \<Rightarrow> string set \<Rightarrow> string set \<Rightarrow> string set \<Rightarrow> real \<Rightarrow> heap \<Rightarrow> error + heap" where
  "update probabilities one_gene two_genes have_trait p h =
     for_each (\<lambda>person h.
         let gene_number = gene_number_of one_gene two_genes (Some person)
         in and_then (add_item probabilities person ''gene'' (Copies gene_number) p h) (\<lambda>h.
              add_item probabilities person ''trait'' (Flag (person \<in> have_trait)) p h))
       (map fst probabilities) h"

section \<open>\<open>normalize\<close>\<close>

text \<open>\<open>val / summed\<close> raises when the divisor is zero, for floats as for ints.\<close>

definition py_div :: "real \<Rightarrow> real \<Rightarrow> error + real" where
  "py_div val summed = (if summed = 0 then Inl ZeroDivisionError else Inr (val / summed))"

text \<open>Lines 177-179, the body of \<open>for category in probabilities[person][typ]\<close>.\<close>

definition normalize_category ::
  "table \<Rightarrow> table \<Rightarrow> string \<Rightarrow> string \<Rightarrow> real \<Rightarrow> key \<Rightarrow> heap \<Rightarrow> error + heap" where
  "normalize_category probabilities normalized person typ summed category h =
     and_then (getbucket probabilities person typ category h) (\<lambda>val.
     and_then (py_div val summed) (\<lambda>normalized_val.
       setitem normalized person typ category normalized_val h))"

text \<open>Lines 175-179, the body of \<open>for typ in ['gene', 'trait']\<close>.\<close>

definition normalize_typ :: "table \<Rightarrow> table \<Rightarrow> string \<Rightarrow> string \<Rightarrow> heap \<Rightarrow> error + heap" where
  "normalize_typ probabilities normalized person typ h =
     and_then (bucket_ref probabilities person typ) (\<lambda>b.
       let summed = sum_list (map snd (buckets h b))
       in for_each (normalize_category probabilities normalized person typ summed)
            (map fst (buckets h b)) h)"

text \<open>
  \<open>probabilities.copy()\<close> builds a new outer dict with the entries of the old one: the
  same names, bound to the same objects. As a value it is the same association list.
\<close>

definition copy :: "table \<Rightarrow> table" where
  "copy probabilities = probabilities"

definition normalize :: "table \<Rightarrow> heap \<Rightarrow> error + (table \<times> heap)" where
  "normalize probabilities h =
     (let normalized = copy probabilities
      in and_then
           (for_each (\<lambda>person h.
                for_each (normalize_typ probabilities normalized person) [''gene'', ''trait''] h)
              (map fst probabilities) h)
           (\<lambda>h. Inr (normalized, h)))"

section \<open>\<open>main\<close>\<close>

text \<open>Lines 40-44: \<open>any(...)\<close> over the names, stopping at the first violation.\<close>

fun any_violation :: "people \<Rightarrow> string set \<Rightarrow> string list \<Rightarrow> error + bool" where
  "any_violation people have_trait [] = Inr False"
| "any_violation people have_trait (person # rest) =
     (case getitem people person of
        Inl e \<Rightarrow> Inl e
      | Inr info \<Rightarrow>
          if trait info \<noteq> None \<and> trait info \<noteq> Some (person \<in> have_trait) then Inr True
          else any_violation people have_trait rest)"

definition fails_evidence :: "people \<Rightarrow> string set \<Rightarrow> string set \<Rightarrow> error + bool" where
  "fails_evidence people names have_trait =
     any_violation people have_trait (sorted_list_of_set names)"

text \<open>Lines 49-54: the two inner loops, for one set \<open>have_trait\<close>.\<close>

definition gene_loops :: "people \<Rightarrow> table \<Rightarrow> string set \<Rightarrow> string set \<Rightarrow> heap \<Rightarrow> error + heap" where
  "gene_loops people probabilities names have_trait h =
     for_each (\<lambda>one_gene h.
         for_each (\<lambda>two_genes h.
             and_then (joint_probability people one_gene two_genes have_trait) (\<lambda>p.
               update probabilities one_gene two_genes have_trait p h))
           (powerset (names - one_gene)) h)
       (powerset names) h"

text \<open>Lines 39-54: the body of \<open>for have_trait in powerset(names)\<close>.\<close>

definition trait_body :: "people \<Rightarrow> table \<Rightarrow> string set \<Rightarrow> string set \<Rightarrow> heap \<Rightarrow> error + heap" where
  "trait_body people probabilities names have_trait h =
     and_then (fails_evidence people names have_trait) (\<lambda>fails.
       if fails then Inr h
       else gene_loops people probabilities names have_trait h)"


text \<open>
  The hypotheses the loops of \<open>main\<close> visit, in order: for each accepted \<open>have_trait\<close>,
  each \<open>one_gene\<close> and each \<open>two_genes\<close>.
\<close>

definition gene_hypotheses :: "string set \<Rightarrow> (string set \<times> string set) list" where
  "gene_hypotheses names =
     concat (map (\<lambda>one_gene. map (\<lambda>two_genes. (one_gene, two_genes))
                                 (powerset (names - one_gene)))
                 (powerset names))"

definition accepted :: "people \<Rightarrow> string set \<Rightarrow> string set list" where
  "accepted people names =
     filter (\<lambda>have_trait. fails_evidence people names have_trait = Inr False) (powerset names)"

definition hypotheses :: "people \<Rightarrow> (string set \<times> string set \<times> string set) list" where
  "hypotheses people =
     (let names = set (map fst people)
      in concat (map (\<lambda>have_trait. map (\<lambda>(one_gene, two_genes).
                                            (have_trait, one_gene, two_genes))
                                        (gene_hypotheses names))
                     (accepted people names)))"

section \<open>The specification's vocabulary\<close>

text \<open>
  The definitions of this section follow the specification's words, not the code; the
  theorems below compare them with the code.
\<close>

text \<open>The unconditional prior of a gene count, and the likelihood of a trait value given it.\<close>

definition prior :: "int \<Rightarrow> real" where
  "prior copies = (if copies = 0 then 0.96 else if copies = 1 then 0.03 else 0.01)"

definition likelihood :: "int \<Rightarrow> bool \<Rightarrow> real" where
  "likelihood copies t =
     (if copies = 0 then (if t then 0.01 else 0.99)
      else if copies = 1 then (if t then 0.56 else 0.44)
      else (if t then 0.65 else 0.35))"

text \<open>
  The transmission probability of a parent: the mutation rate for 0 copies, one half
  for 1 copy, one minus the mutation rate for 2 copies.
\<close>

definition transmit :: "int \<Rightarrow> real" where
  "transmit copies =
     (if copies = 0 then PROBS_mutation else if copies = 1 then 1 / 2 else 1 - PROBS_mutation)"

text \<open>The child's gene-count probability, from the two transmission probabilities.\<close>

definition child_gene_probability :: "int \<Rightarrow> real \<Rightarrow> real \<Rightarrow> real" where
  "child_gene_probability copies tm tf =
     (if copies = 0 then (1 - tm) * (1 - tf)
      else if copies = 1 then (1 - tm) * tf + tm * (1 - tf)
      else tm * tf)"

text \<open>A founder has no recorded parents.\<close>

definition founder :: "person \<Rightarrow> bool" where
  "founder info = (mother info = None \<and> father info = None)"

text \<open>
  The data model's invariant on a person: mother and father are both unset or both set.
\<close>

definition parents_paired :: "people \<Rightarrow> bool" where
  "parents_paired people =
     list_all (\<lambda>(person, info). (mother info = None) = (father info = None)) people"

definition individual_contribution ::
  "string set \<Rightarrow> string set \<Rightarrow> string set \<Rightarrow> string \<Rightarrow> person \<Rightarrow> real" where
  "individual_contribution one_gene two_genes have_trait person info =
     (let copies = gene_number_of one_gene two_genes (Some person);
          t = (person \<in> have_trait)
      in if founder info then prior copies * likelihood copies t
         else child_gene_probability copies
                (transmit (gene_number_of one_gene two_genes (mother info)))
                (transmit (gene_number_of one_gene two_genes (father info)))
              * likelihood copies t)"

text \<open>
  A trait-subset agrees with the evidence when every person with a known trait value is
  in it exactly when that value is true.
\<close>

definition agrees_with_evidence :: "people \<Rightarrow> string set \<Rightarrow> bool" where
  "agrees_with_evidence people have_trait =
     list_all (\<lambda>(person, info).
                 case trait info of None \<Rightarrow> True | Some v \<Rightarrow> (person \<in> have_trait) = v)
              people"

text \<open>
  Normalizing a distribution: every bucket's accumulated mass divided by the sum of the
  buckets.
\<close>

definition norm_dict :: "(key \<times> real) list \<Rightarrow> (key \<times> real) list" where
  "norm_dict d = map (\<lambda>(k, v). (k, v / sum_list (map snd d))) d"

text \<open>
  The shape of a probabilities table: every person has a \<open>"gene"\<close> and a \<open>"trait"\<close>
  distribution, each a dict (no key twice) with at least one bucket.
\<close>

definition well_formed :: "table \<Rightarrow> heap \<Rightarrow> bool" where
  "well_formed probabilities h =
     list_all (\<lambda>(person, dists).
         list_all (\<lambda>typ. case map_of dists typ of
                            None \<Rightarrow> False
                          | Some b \<Rightarrow> distinct (map fst (buckets h b)) \<and> buckets h b \<noteq> [])
                  [''gene'', ''trait''])
       probabilities"

section \<open>The families of the program's own tests\<close>

definition simple_family_data :: people where
  "simple_family_data =
     [(''person1'', \<lparr>name = ''person1'', mother = None, father = None, trait = None\<rparr>),
      (''person2'', \<lparr>name = ''person2'', mother = None, father = None, trait = None\<rparr>)]"

definition three_generation_data :: people where
  "three_generation_data =
     [(''grandmother'',
         \<lparr>name = ''grandmother'', mother = None, father = None, trait = None\<rparr>),
      (''grandfather'',
         \<lparr>name = ''grandfather'', mother = None, father = None, trait = None\<rparr>),
      (''mother'',
         \<lparr>name = ''mother'', mother = Some ''grandmother'', father = Some ''grandfather'',
          trait = None\<rparr>),
      (''father'', \<lparr>name = ''father'', mother = None, father = None, trait = None\<rparr>),
      (''child'',
         \<lparr>name = ''child'', mother = Some ''mother'', father = Some ''father'',
          trait = None\<rparr>)]"

text \<open>Records that name one parent only: a father and no mother, a mother and no father.\<close>

definition one_parent_data :: people where
  "one_parent_data =
     [(''bob'', \<lparr>name = ''bob'', mother = None, father = None, trait = None\<rparr>),
      (''carol'', \<lparr>name = ''carol'', mother = None, father = Some ''bob'', trait = None\<rparr>),
      (''dave'', \<lparr>name = ''dave'', mother = Some ''bob'', father = None, trait = None\<rparr>)]"

text \<open>A population with evidence: one person, known to have the trait.\<close>

definition one_known_data :: people where
  "one_known_data =
     [(''alice'', \<lparr>name = ''alice'', mother = None, father = None, trait = Some True\<rparr>)]"

text \<open>A table with accumulated masses for one person, and one that is still all zero.\<close>

definition example_table :: table where
  "example_table = [(''alice'', [(''gene'', 0), (''trait'', 1)])]"

definition example_heap :: heap where
  "example_heap =
     \<lparr>buckets = (\<lambda>r. [])
         (0 := [(Copies 2, 1), (Copies 1, 3), (Copies 0, 4)],
          1 := [(Flag True, 1), (Flag False, 3)]),
      next_ref = 2\<rparr>"

definition zero_heap :: heap where
  "zero_heap = snd (new_table [''alice''] empty_heap)"



section \<open>Summaries of loop bodies\<close>

text \<open>The loop over the categories of one dict, on the dict itself.\<close>

definition divide_entry :: "real \<Rightarrow> key \<Rightarrow> (key \<times> real) list \<Rightarrow> error + (key \<times> real) list" where
  "divide_entry summed category d =
     and_then (getitem d category) (\<lambda>val.
     and_then (py_div val summed) (\<lambda>normalized_val.
       Inr (AList.update category normalized_val d)))"

text \<open>One pass of the loop over \<open>typ\<close>, on the dict at reference \<open>b\<close>.\<close>

definition norm_at :: "ref \<Rightarrow> heap \<Rightarrow> heap" where
  "norm_at b h = h\<lparr>buckets := (buckets h)(b := norm_dict (buckets h b))\<rparr>"

definition norm_step :: "ref \<Rightarrow> heap \<Rightarrow> error + heap" where
  "norm_step b h =
     (if sum_list (map snd (buckets h b)) = 0 then Inl ZeroDivisionError
      else Inr (norm_at b h))"

text \<open>The references \<open>normalize\<close> visits, in order.\<close>

definition typ_refs :: "table \<Rightarrow> string \<Rightarrow> ref list" where
  "typ_refs probabilities person =
     concat (map (\<lambda>typ. case bucket_ref probabilities person typ of
                           Inl e \<Rightarrow> [] | Inr b \<Rightarrow> [b])
                 [''gene'', ''trait''])"

definition visited :: "table \<Rightarrow> ref list" where
  "visited probabilities = concat (map (typ_refs probabilities) (map fst probabilities))"

text \<open>What one pass of the loop body multiplies into \<open>probability\<close>, read off the code.\<close>

definition person_factor ::
  "string set \<Rightarrow> string set \<Rightarrow> string set \<Rightarrow> string \<Rightarrow> person \<Rightarrow> real" where
  "person_factor one_gene two_genes have_trait person info =
     (let g = gene_number_of one_gene two_genes (Some person)
      in if mother info = None then prior g * likelihood g (person \<in> have_trait)
         else inherit g (perc_of (gene_number_of one_gene two_genes (mother info)))
                        (perc_of (gene_number_of one_gene two_genes (father info)))
              * likelihood g (person \<in> have_trait))"

section \<open>Basic facts\<close>

lemma and_then_Inr [simp]: "and_then (Inr v) f = f v"
  by (simp add: and_then_def)

lemma and_then_Inl [simp]: "and_then (Inl e) f = Inl e"
  by (simp add: and_then_def)

lemma getitem_Some: "map_of d k = Some v \<Longrightarrow> getitem d k = Inr v"
  by (simp add: getitem_def)

lemma getitem_None: "map_of d k = None \<Longrightarrow> getitem d k = Inl KeyError"
  by (simp add: getitem_def)

lemma for_each_append:
  "for_each body (xs @ ys) s = and_then (for_each body xs s) (for_each body ys)"
  by (induction xs arbitrary: s) (auto split: sum.splits)

section \<open>\<open>joint_probability\<close> is a product of one factor per person\<close>

lemma gene_number_cases:
  "gene_number_of a b p = 0 \<or> gene_number_of a b p = 1 \<or> gene_number_of a b p = 2"
  by (simp add: gene_number_of_def)

lemma getitem_PROBS_gene:
  "getitem PROBS_gene (gene_number_of a b p) = Inr (prior (gene_number_of a b p))"
  using gene_number_cases [of a b p] by (auto simp: getitem_def PROBS_gene_def prior_def)

lemma getitem_PROBS_trait:
  "and_then (getitem PROBS_trait (gene_number_of a b p)) (\<lambda>row. and_then (getitem row t) f)
   = f (likelihood (gene_number_of a b p) t)"
  using gene_number_cases [of a b p]
  by (auto simp: getitem_def PROBS_trait_def likelihood_def)

lemma getitem_percentages:
  "getitem (percentages_of a b [m, f]) m = Inr (perc_of (gene_number_of a b m))"
  "getitem (percentages_of a b [m, f]) f = Inr (perc_of (gene_number_of a b f))"
  by (auto simp: percentages_of_def getitem_def update_conv')

lemma joint_body_eq:
  "joint_body people a b c person pr =
     (case map_of people person of None \<Rightarrow> Inl KeyError
      | Some info \<Rightarrow> Inr (pr * person_factor a b c person info))"
proof (cases "map_of people person")
  case None
  then show ?thesis
    by (simp add: joint_body_def getitem_PROBS_gene getitem_PROBS_trait)
       (simp add: getitem_def)
next
  case (Some info)
  then have "getitem people person = Inr info" by (simp add: getitem_def)
  with Some show ?thesis
    by (simp add: joint_body_def getitem_PROBS_gene getitem_PROBS_trait getitem_percentages
        person_factor_def Let_def)
qed

lemma for_each_joint_body:
  assumes "\<forall>x \<in> set xs. \<exists>info. map_of people x = Some info"
  shows "for_each (joint_body people a b c) xs pr =
         Inr (pr * (\<Prod>x\<leftarrow>xs. person_factor a b c x (the (map_of people x))))"
  using assms
proof (induction xs arbitrary: pr)
  case Nil
  then show ?case by simp
next
  case (Cons x xs)
  then obtain info where "map_of people x = Some info" by auto
  with Cons show ?case by (simp add: joint_body_eq mult.assoc)
qed

lemma joint_probability_keys:
  "joint_probability people a b c =
     Inr (\<Prod>x\<leftarrow>map fst people. person_factor a b c x (the (map_of people x)))"
proof -
  have "\<forall>x \<in> set (map fst people). \<exists>info. map_of people x = Some info"
    by (auto dest: weak_map_of_SomeI)
  then show ?thesis
    unfolding joint_probability_def by (rule for_each_joint_body [where pr = 1, simplified])
qed

lemma map_the_map_of:
  "distinct (map fst people) \<Longrightarrow> set ys \<subseteq> set people \<Longrightarrow>
   map (\<lambda>x. f x (the (map_of people x))) (map fst ys) = map (\<lambda>(x, info). f x info) ys"
  by (induction ys) auto

lemma joint_probability_eq:
  assumes "distinct (map fst people)"
  shows "joint_probability people a b c =
           Inr (\<Prod>(x, info)\<leftarrow>people. person_factor a b c x info)"
proof -
  have "map (\<lambda>x. person_factor a b c x (the (map_of people x))) (map fst people)
      = map (\<lambda>(x, info). person_factor a b c x info) people"
    using assms by (rule map_the_map_of) simp
  then show ?thesis by (simp only: joint_probability_keys)
qed

lemma perc_of_transmit: "perc_of n = transmit n"
  by (simp add: perc_of_def transmit_def)

lemma inherit_child: "inherit g a b = child_gene_probability g a b"
  by (simp add: inherit_def child_gene_probability_def)

text \<open>
  Claim C1. For a population that is a dict (each name once) and keeps the data model's
  invariant (mother and father both unset or both set), \<open>joint_probability\<close> returns the
  product over all persons of the specification's individual contribution: prior times
  likelihood for a founder, the transmission formula times likelihood for a person with
  recorded parents. When every person is a founder the result is the product of the
  founders' prior times likelihood terms.
\<close>

theorem joint_probability_is_product:
  assumes "distinct (map fst people)" and "parents_paired people"
  shows "joint_probability people one_gene two_genes have_trait =
           Inr (\<Prod>(person, info)\<leftarrow>people.
                  individual_contribution one_gene two_genes have_trait person info) \<and>
         (list_all (\<lambda>(person, info). founder info) people \<longrightarrow>
          joint_probability people one_gene two_genes have_trait =
            Inr (\<Prod>(person, info)\<leftarrow>people.
                   prior (gene_number_of one_gene two_genes (Some person)) *
                   likelihood (gene_number_of one_gene two_genes (Some person))
                     (person \<in> have_trait)))"
proof -
  have "map (\<lambda>(x, info). person_factor one_gene two_genes have_trait x info) people =
        map (\<lambda>(x, info). individual_contribution one_gene two_genes have_trait x info) people"
    using assms(2)
    by (auto simp: person_factor_def individual_contribution_def founder_def Let_def
        perc_of_transmit inherit_child parents_paired_def list_all_iff)
  then have 1: "joint_probability people one_gene two_genes have_trait =
           Inr (\<Prod>(person, info)\<leftarrow>people.
                  individual_contribution one_gene two_genes have_trait person info)"
    by (simp only: joint_probability_eq [OF assms(1)])
  have "joint_probability people one_gene two_genes have_trait =
            Inr (\<Prod>(person, info)\<leftarrow>people.
                   prior (gene_number_of one_gene two_genes (Some person)) *
                   likelihood (gene_number_of one_gene two_genes (Some person))
                     (person \<in> have_trait))"
    if all: "list_all (\<lambda>(person, info). founder info) people"
  proof -
    have "map (\<lambda>(x, info). individual_contribution one_gene two_genes have_trait x info) people =
        map (\<lambda>(person, info). prior (gene_number_of one_gene two_genes (Some person)) *
                   likelihood (gene_number_of one_gene two_genes (Some person))
                     (person \<in> have_trait)) people"
      using all by (auto simp: individual_contribution_def Let_def list_all_iff)
    then show ?thesis by (simp only: 1)
  qed
  then have "list_all (\<lambda>(person, info). founder info) people \<longrightarrow>
          joint_probability people one_gene two_genes have_trait =
            Inr (\<Prod>(person, info)\<leftarrow>people.
                   prior (gene_number_of one_gene two_genes (Some person)) *
                   likelihood (gene_number_of one_gene two_genes (Some person))
                     (person \<in> have_trait))"
    by (rule impI)
  with 1 show ?thesis by (rule conjI)
qed

theorem joint_probability_is_product_witness:
  "distinct (map fst three_generation_data) \<and> parents_paired three_generation_data \<and>
   joint_probability three_generation_data {''child''} {''mother''} {''child''} =
     Inr (0.96 * 0.99 * (0.96 * 0.99) * (0.01 * 0.01 * 0.35) * (0.96 * 0.99) *
          (((1 - 0.99) * 0.01 + 0.99 * (1 - 0.01)) * 0.56))"
  using joint_probability_is_product
          [of three_generation_data "{''child''}" "{''mother''}" "{''child''}"]
  by (simp add: three_generation_data_def parents_paired_def individual_contribution_def
      founder_def gene_number_of_def prior_def likelihood_def transmit_def
      child_gene_probability_def PROBS_mutation_def)

text \<open>
  Claim C4. For every pair of parental gene counts, the factors the transmission formula
  gives the child's three gene counts 0, 1 and 2 add up to exactly 1.
\<close>

theorem child_gene_counts_sum_to_one:
  "inherit 0 (perc_of mother_number) (perc_of father_number)
   + inherit 1 (perc_of mother_number) (perc_of father_number)
   + inherit 2 (perc_of mother_number) (perc_of father_number) = 1"
  by (simp add: inherit_def algebra_simps)

text \<open>
  Claim C8. For any population of exactly two founders (whatever their names and recorded
  traits, so in particular with no recorded trait for either), the joint probability of
  "nobody has one gene, nobody has two genes, nobody has the trait" is
  \<open>0.96\<^sup>2 \<times> 0.99\<^sup>2\<close>, where 0.96 is \<open>PROBS["gene"][0]\<close> and 0.99 is
  \<open>PROBS["trait"][0][False]\<close>; the value is 0.90326016.
\<close>

theorem joint_probability_two_founders:
  assumes "founder info1" and "founder info2"
  shows "joint_probability [(person1, info1), (person2, info2)] {} {} {} =
           Inr (0.96\<^sup>2 * 0.99\<^sup>2) \<and>
         getitem PROBS_gene 0 = Inr 0.96 \<and>
         and_then (getitem PROBS_trait 0) (\<lambda>row. getitem row False) = Inr 0.99 \<and>
         (0.96\<^sup>2 * 0.99\<^sup>2 :: real) = 0.90326016"
proof -
  have "joint_probability [(person1, info1), (person2, info2)] {} {} {} =
           Inr (0.96\<^sup>2 * 0.99\<^sup>2)"
    using assms
    by (simp add: joint_probability_keys person_factor_def founder_def gene_number_of_def
        prior_def likelihood_def power2_eq_square)
  moreover have "getitem PROBS_gene 0 = Inr 0.96"
    by (simp add: getitem_def PROBS_gene_def)
  moreover have "and_then (getitem PROBS_trait 0) (\<lambda>row. getitem row False) = Inr 0.99"
    by (simp add: getitem_def PROBS_trait_def)
  moreover have "(0.96\<^sup>2 * 0.99\<^sup>2 :: real) = 0.90326016"
    by (simp add: power2_eq_square)
  ultimately show ?thesis by (intro conjI)
qed

theorem joint_probability_two_founders_witness:
  "founder \<lparr>name = ''person1'', mother = None, father = None, trait = None\<rparr> \<and>
   founder \<lparr>name = ''person2'', mother = None, father = None, trait = None\<rparr> \<and>
   joint_probability simple_family_data {} {} {} = Inr (0.96\<^sup>2 * 0.99\<^sup>2)"
  using joint_probability_two_founders
          [of "\<lparr>name = ''person1'', mother = None, father = None, trait = None\<rparr>"
              "\<lparr>name = ''person2'', mother = None, father = None, trait = None\<rparr>"
              "''person1''" "''person2''"]
  by (simp add: founder_def simple_family_data_def)

text \<open>
  The assertion of \<open>test_joint_probability_simple\<close>, \<open>probability == 1\<close>, is false of
  the value the function returns.
\<close>

lemma test_joint_probability_simple_fails:
  "joint_probability simple_family_data {} {} {} \<noteq> Inr 1"
  by (simp add: joint_probability_keys simple_family_data_def person_factor_def
      gene_number_of_def prior_def likelihood_def)

text \<open>
  Claim C10. Whether a person counts as a founder is decided by the \<open>mother\<close> field alone.
  With \<open>mother\<close> unset the loop body multiplies in the unconditional prior times the
  likelihood whatever the \<open>father\<close> field holds, and replacing the recorded father by any
  other value leaves \<open>joint_probability\<close> unchanged. With \<open>mother\<close> set the body uses the
  transmission formula, also when \<open>father\<close> is unset.
\<close>

theorem founder_decided_by_mother:
  assumes "map_of people person = Some info"
  shows "(mother info = None \<longrightarrow>
            joint_body people one_gene two_genes have_trait person probability =
              Inr (probability *
                   (prior (gene_number_of one_gene two_genes (Some person)) *
                    likelihood (gene_number_of one_gene two_genes (Some person))
                      (person \<in> have_trait))) \<and>
            joint_probability (AList.update person (info\<lparr>father := other\<rparr>) people)
                one_gene two_genes have_trait =
              joint_probability people one_gene two_genes have_trait) \<and>
         (mother info \<noteq> None \<longrightarrow>
            joint_body people one_gene two_genes have_trait person probability =
              Inr (probability *
                   inherit (gene_number_of one_gene two_genes (Some person))
                     (perc_of (gene_number_of one_gene two_genes (mother info)))
                     (perc_of (gene_number_of one_gene two_genes (father info))) *
                   likelihood (gene_number_of one_gene two_genes (Some person))
                     (person \<in> have_trait)))"
proof (intro conjI impI)
  assume "mother info = None"
  with assms show "joint_body people one_gene two_genes have_trait person probability =
           Inr (probability *
                (prior (gene_number_of one_gene two_genes (Some person)) *
                 likelihood (gene_number_of one_gene two_genes (Some person))
                   (person \<in> have_trait)))"
    by (simp add: joint_body_eq person_factor_def Let_def)
next
  assume unset: "mother info = None"
  let ?people' = "AList.update person (info\<lparr>father := other\<rparr>) people"
  have keys: "map fst ?people' = map fst people"
    using map_of_SomeD [OF assms] by (force simp: update_keys)
  have "person_factor one_gene two_genes have_trait x (the (map_of ?people' x)) =
        person_factor one_gene two_genes have_trait x (the (map_of people x))" for x
  proof (cases "x = person")
    case True
    then have "map_of ?people' x = Some (info\<lparr>father := other\<rparr>)"
      by (simp add: update_conv')
    with True assms unset show ?thesis by (simp add: person_factor_def)
  next
    case False
    then have "map_of ?people' x = map_of people x"
      by (simp add: update_conv')
    then show ?thesis by simp
  qed
  then show "joint_probability ?people' one_gene two_genes have_trait =
        joint_probability people one_gene two_genes have_trait"
    by (simp only: joint_probability_keys keys)
next
  assume "mother info \<noteq> None"
  then obtain m where "mother info = Some m" by auto
  with assms show "joint_body people one_gene two_genes have_trait person probability =
              Inr (probability *
                   inherit (gene_number_of one_gene two_genes (Some person))
                     (perc_of (gene_number_of one_gene two_genes (mother info)))
                     (perc_of (gene_number_of one_gene two_genes (father info))) *
                   likelihood (gene_number_of one_gene two_genes (Some person))
                     (person \<in> have_trait))"
    by (simp add: joint_body_eq person_factor_def Let_def mult.assoc)
qed

theorem founder_decided_by_mother_witness:
  "map_of one_parent_data ''carol'' =
     Some \<lparr>name = ''carol'', mother = None, father = Some ''bob'', trait = None\<rparr> \<and>
   joint_body one_parent_data {''carol''} {''bob''} {} ''carol'' 1 = Inr (0.03 * 0.44) \<and>
   map_of one_parent_data ''dave'' =
     Some \<lparr>name = ''dave'', mother = Some ''bob'', father = None, trait = None\<rparr> \<and>
   joint_body one_parent_data {''carol''} {''bob''} {} ''dave'' 1 =
     Inr ((1 - 0.99) * (1 - 0.01) * 0.99) \<and>
   joint_body one_parent_data {''carol''} {''bob''} {} ''dave'' 1 \<noteq> Inr (0.96 * 0.99)"
  using founder_decided_by_mother
          [of one_parent_data "''carol''"
              "\<lparr>name = ''carol'', mother = None, father = Some ''bob'', trait = None\<rparr>"
              "{''carol''}" "{''bob''}" "{}" 1 None]
        founder_decided_by_mother
          [of one_parent_data "''dave''"
              "\<lparr>name = ''dave'', mother = Some ''bob'', father = None, trait = None\<rparr>"
              "{''carol''}" "{''bob''}" "{}" 1 None]
  by (simp add: one_parent_data_def prior_def likelihood_def gene_number_of_def
      inherit_def perc_of_def PROBS_mutation_def)

section \<open>The hypotheses \<open>main\<close> visits\<close>

lemma for_each_map: "for_each body (map f xs) s = for_each (\<lambda>x. body (f x)) xs s"
  by (induction xs arbitrary: s) (auto split: sum.splits)

lemma for_each_concat:
  "for_each body (concat xss) s = for_each (\<lambda>xs. for_each body xs) xss s"
  by (induction xss arbitrary: s) (auto simp: for_each_append split: sum.splits)

lemma for_each_filter:
  "for_each (\<lambda>x s. if P x then body x s else Inr s) xs s = for_each body (filter P xs) s"
  by (induction xs arbitrary: s) (auto split: sum.splits)

lemma for_each_cong:
  "(\<And>x s. x \<in> set xs \<Longrightarrow> f x s = g x s) \<Longrightarrow> for_each f xs s = for_each g xs s"
  by (induction xs arbitrary: s) (auto split: sum.splits)

lemma any_violation_eq:
  assumes "\<forall>x \<in> set xs. \<exists>info. map_of people x = Some info"
  shows "any_violation people have_trait xs =
         Inr (\<exists>x \<in> set xs. trait (the (map_of people x)) \<noteq> None \<and>
                trait (the (map_of people x)) \<noteq> Some (x \<in> have_trait))"
  using assms
proof (induction xs)
  case Nil
  then show ?case by simp
next
  case (Cons x xs)
  then obtain info where "map_of people x = Some info" by auto
  with Cons show ?case by (auto simp: getitem_def)
qed

lemma fails_evidence_eq:
  "fails_evidence people (set (map fst people)) have_trait =
     Inr (\<exists>x \<in> set (map fst people). trait (the (map_of people x)) \<noteq> None \<and>
            trait (the (map_of people x)) \<noteq> Some (x \<in> have_trait))"
proof -
  have "\<forall>x \<in> set (sorted_list_of_set (set (map fst people))).
          \<exists>info. map_of people x = Some info"
    by (auto dest: weak_map_of_SomeI)
  from any_violation_eq [OF this] show ?thesis
    by (simp add: fails_evidence_def)
qed

text \<open>The loops of \<open>main\<close> run the accumulation once for each hypothesis of the list.\<close>

lemma for_each_map': "for_each body (map f xs) = for_each (\<lambda>x. body (f x)) xs"
  by (rule ext) (rule for_each_map)

lemma for_each_concat':
  "for_each body (concat xss) = for_each (\<lambda>xs. for_each body xs) xss"
  by (rule ext) (rule for_each_concat)

lemma gene_loops_hypotheses:
  "gene_loops people probabilities names have_trait h =
     for_each (\<lambda>(one_gene, two_genes) h.
         and_then (joint_probability people one_gene two_genes have_trait) (\<lambda>p.
           update probabilities one_gene two_genes have_trait p h))
       (gene_hypotheses names) h"
  by (simp add: gene_loops_def gene_hypotheses_def for_each_concat' for_each_map')

lemma main_loops_hypotheses:
  "for_each (trait_body people probabilities (set (map fst people)))
       (powerset (set (map fst people))) h =
     for_each (\<lambda>(have_trait, one_gene, two_genes) h.
         and_then (joint_probability people one_gene two_genes have_trait) (\<lambda>p.
           update probabilities one_gene two_genes have_trait p h))
       (hypotheses people) h"
proof -
  let ?names = "set (map fst people)"
  have body: "trait_body people probabilities ?names =
      (\<lambda>have_trait s. if fails_evidence people ?names have_trait = Inr False
       then gene_loops people probabilities ?names have_trait s else Inr s)"
  proof (intro ext)
    fix have_trait s
    obtain b where "fails_evidence people ?names have_trait = Inr b"
      using fails_evidence_eq by blast
    then show "trait_body people probabilities ?names have_trait s =
      (if fails_evidence people ?names have_trait = Inr False
       then gene_loops people probabilities ?names have_trait s else Inr s)"
      unfolding trait_body_def by simp
  qed
  have "for_each (trait_body people probabilities ?names) (powerset ?names) h =
        for_each (gene_loops people probabilities ?names) (accepted people ?names) h"
    unfolding body accepted_def by (rule for_each_filter)
  also have "\<dots> = for_each (\<lambda>have_trait. for_each (\<lambda>(one_gene, two_genes) h.
         and_then (joint_probability people one_gene two_genes have_trait) (\<lambda>p.
           update probabilities one_gene two_genes have_trait p h))
       (gene_hypotheses ?names)) (accepted people ?names) h"
    by (rule for_each_cong) (rule gene_loops_hypotheses)
  also have "\<dots> = for_each (\<lambda>(have_trait, one_gene, two_genes) h.
         and_then (joint_probability people one_gene two_genes have_trait) (\<lambda>p.
           update probabilities one_gene two_genes have_trait p h))
       (hypotheses people) h"
    by (simp add: hypotheses_def for_each_concat' for_each_map' split_def)
  finally show ?thesis .
qed

text \<open>
  Claim C7. For the empty population the loops visit exactly one hypothesis, with all
  three sets empty, and \<open>joint_probability\<close> of it is 1.
\<close>

theorem empty_population:
  "hypotheses [] = [({}, {}, {})] \<and> joint_probability [] {} {} {} = Inr 1"
  by (simp add: hypotheses_def accepted_def gene_hypotheses_def powerset_def
      fails_evidence_def joint_probability_def)

lemma known_trait_cases:
  "(case t of None \<Rightarrow> True | Some v \<Rightarrow> m = v) = (t = None \<or> t = Some m)"
  by (cases t) auto

lemma agrees_with_evidence_eq:
  assumes "distinct (map fst people)"
  shows "agrees_with_evidence people have_trait =
         (\<forall>x \<in> set (map fst people). trait (the (map_of people x)) = None \<or>
            trait (the (map_of people x)) = Some (x \<in> have_trait))"
proof -
  have "map_of people x = Some info" if "(x, info) \<in> set people" for x info
    using assms that by simp
  then have "agrees_with_evidence people have_trait =
      (\<forall>(x, info) \<in> set people. trait (the (map_of people x)) = None \<or>
            trait (the (map_of people x)) = Some (x \<in> have_trait))"
    unfolding agrees_with_evidence_def list_all_iff known_trait_cases
    by (intro ball_cong refl) auto
  then show ?thesis by auto
qed

lemma powerset_empty: "powerset {} = [{}]"
  by (simp add: powerset_def)

lemma powerset_single: "powerset {x} = [{}, {x}]"
  by (simp add: powerset_def)

lemma gene_hypotheses_single: "gene_hypotheses {x} = [({}, {}), ({}, {x}), ({x}, {})]"
  by (simp add: gene_hypotheses_def powerset_single powerset_empty)

lemma zero_heap_eq:
  "zero_heap = \<lparr>buckets = (\<lambda>r. [])
         (0 := [(Copies 2, 0), (Copies 1, 0), (Copies 0, 0)],
          1 := [(Flag True, 0), (Flag False, 0)]),
      next_ref = 2\<rparr>"
  by (simp add: zero_heap_def alloc_def empty_heap_def)

lemma bucket_ref_example:
  "bucket_ref example_table ''alice'' ''gene'' = Inr 0"
  "bucket_ref example_table ''alice'' ''trait'' = Inr 1"
  by (simp_all add: bucket_ref_def example_table_def getitem_def)

lemma keys_example: "map fst example_table = [''alice'']"
  by (simp add: example_table_def)

lemma accepted_run:
  "\<exists>h'. gene_loops one_known_data example_table {''alice''} {''alice''} zero_heap = Inr h' \<and>
        buckets h' 0 = [(Copies 2, 0.0065), (Copies 1, 0.0168), (Copies 0, 0.0096)] \<and>
        buckets h' 1 = [(Flag True, 0.0329), (Flag False, 0)]"
  by (simp add: gene_loops_hypotheses gene_hypotheses_single joint_probability_keys
      one_known_data_def person_factor_def gene_number_of_def prior_def likelihood_def
      update_def add_item_def getbucket_def setitem_def bucket_ref_example zero_heap_eq
      getitem_def keys_example)

text \<open>
  Claim C6. For a population with tri-state trait observations, the evidence check of
  \<open>main\<close> fails for a candidate trait-subset exactly when some person with a known trait
  value is in the subset without that value being true, or out of it with the value true.
  For a subset that fails, the loop body leaves the probabilities as they are; for a
  subset that passes, the loop body is the two inner loops.
\<close>

theorem evidence_check:
  assumes "distinct (map fst people)"
  shows "fails_evidence people (set (map fst people)) have_trait =
           Inr (\<not> agrees_with_evidence people have_trait) \<and>
         (\<not> agrees_with_evidence people have_trait \<longrightarrow>
            trait_body people probabilities (set (map fst people)) have_trait h = Inr h) \<and>
         (agrees_with_evidence people have_trait \<longrightarrow>
            trait_body people probabilities (set (map fst people)) have_trait h =
              gene_loops people probabilities (set (map fst people)) have_trait h)"
proof -
  have "fails_evidence people (set (map fst people)) have_trait =
           Inr (\<not> agrees_with_evidence people have_trait)"
    unfolding fails_evidence_eq agrees_with_evidence_eq [OF assms] by simp
  then show ?thesis
    unfolding trait_body_def by simp
qed

theorem evidence_check_witness:
  "distinct (map fst one_known_data) \<and>
   new_table (map fst one_known_data) empty_heap = (example_table, zero_heap) \<and>
   \<not> agrees_with_evidence one_known_data {} \<and>
   trait_body one_known_data example_table {''alice''} {} zero_heap = Inr zero_heap \<and>
   agrees_with_evidence one_known_data {''alice''} \<and>
   buckets zero_heap 1 = [(Flag True, 0), (Flag False, 0)] \<and>
   (\<exists>h'. trait_body one_known_data example_table {''alice''} {''alice''} zero_heap = Inr h' \<and>
         buckets h' 0 = [(Copies 2, 0.0065), (Copies 1, 0.0168), (Copies 0, 0.0096)] \<and>
         buckets h' 1 = [(Flag True, 0.0329), (Flag False, 0)])"
proof -
  have names: "set (map fst one_known_data) = {''alice''}"
    and d: "distinct (map fst one_known_data)"
    by (simp_all add: one_known_data_def)
  have tab: "new_table (map fst one_known_data) empty_heap = (example_table, zero_heap)"
    by (simp add: one_known_data_def example_table_def zero_heap_def alloc_def empty_heap_def)
  have no: "\<not> agrees_with_evidence one_known_data {}"
    and yes: "agrees_with_evidence one_known_data {''alice''}"
    by (simp_all add: agrees_with_evidence_def one_known_data_def)
  have zero: "buckets zero_heap 1 = [(Flag True, 0), (Flag False, 0)]"
    by (simp add: zero_heap_eq)
  from evidence_check [OF d, of "{}" example_table zero_heap] no
  have rejected: "trait_body one_known_data example_table {''alice''} {} zero_heap = Inr zero_heap"
    unfolding names by blast
  from evidence_check [OF d, of "{''alice''}" example_table zero_heap] yes
  have "trait_body one_known_data example_table {''alice''} {''alice''} zero_heap =
        gene_loops one_known_data example_table {''alice''} {''alice''} zero_heap"
    unfolding names by blast
  with accepted_run
  have run: "\<exists>h'. trait_body one_known_data example_table {''alice''} {''alice''} zero_heap = Inr h' \<and>
         buckets h' 0 = [(Copies 2, 0.0065), (Copies 1, 0.0168), (Copies 0, 0.0096)] \<and>
         buckets h' 1 = [(Flag True, 0.0329), (Flag False, 0)]"
    by simp
  from d tab no rejected yes zero run show ?thesis by (intro conjI)
qed

section \<open>Counting the subsets \<open>powerset\<close> lists\<close>





















section \<open>\<open>normalize\<close> on one distribution\<close>

lemma sum_norm_dict:
  "sum_list (map snd d) \<noteq> 0 \<Longrightarrow> sum_list (map snd (norm_dict d)) = 1"
proof -
  have "sum_list (map snd (map (\<lambda>(k, v). (k, v / s)) d)) = sum_list (map snd d) / s" for s
    by (induction d) (auto simp: add_divide_distrib)
  then show "sum_list (map snd d) \<noteq> 0 \<Longrightarrow> sum_list (map snd (norm_dict d)) = 1"
    by (simp add: norm_dict_def)
qed

lemma keys_norm_dict [simp]: "map fst (norm_dict d) = map fst d"
  by (simp add: norm_dict_def comp_def split_def)

lemma norm_dict_idem:
  "sum_list (map snd d) \<noteq> 0 \<Longrightarrow> norm_dict (norm_dict d) = norm_dict d"
proof -
  assume "sum_list (map snd d) \<noteq> 0"
  then have "sum_list (map snd (norm_dict d)) = 1" by (rule sum_norm_dict)
  then have "norm_dict (norm_dict d) = map (\<lambda>(k, v). (k, v / 1)) (norm_dict d)"
    by (simp only: norm_dict_def [of "norm_dict d"])
  then show ?thesis by (simp add: split_def)
qed

lemma update_as_map:
  "distinct (map fst d) \<Longrightarrow> map_of d k = Some v \<Longrightarrow>
   AList.update k w d = map (\<lambda>(k', v'). (k', if k' = k then w else v')) d"
proof (induction d)
  case Nil
  then show ?case by simp
next
  case (Cons e d)
  obtain k0 v0 where e: "e = (k0, v0)" by (cases e)
  show ?case
  proof (cases "k0 = k")
    case True
    with Cons.prems e have "k \<notin> fst ` set d" by auto
    then have "map (\<lambda>(k', v'). (k', if k' = k then w else v')) d = d"
      by (intro map_idI) (auto simp: split_def intro!: prod_eqI)
    with True e show ?thesis by simp
  next
    case False
    with Cons e show ?thesis by simp
  qed
qed

lemma divide_entries:
  assumes "s \<noteq> 0"
  shows "distinct (map fst d) \<Longrightarrow> distinct ks \<Longrightarrow> set ks \<subseteq> fst ` set d \<Longrightarrow>
         for_each (divide_entry s) ks d =
           Inr (map (\<lambda>(k, v). (k, if k \<in> set ks then v / s else v)) d)"
proof (induction ks arbitrary: d)
  case Nil
  then show ?case by (simp add: split_def)
next
  case (Cons k ks)
  from Cons.prems obtain v where v: "map_of d k = Some v"
    by (auto dest: weak_map_of_SomeI)
  let ?d1 = "map (\<lambda>(k', v'). (k', if k' = k then v / s else v')) d"
  have step: "divide_entry s k d = Inr ?d1"
    using v assms update_as_map [OF Cons.prems(1) v]
    by (simp add: divide_entry_def getitem_def py_div_def)
  have keys: "map fst ?d1 = map fst d"
    by (simp add: comp_def split_def)
  have "for_each (divide_entry s) ks ?d1 =
        Inr (map (\<lambda>(k, v). (k, if k \<in> set ks then v / s else v)) ?d1)"
  proof (rule Cons.IH)
    show "distinct (map fst ?d1)" using Cons.prems(1) by (simp only: keys)
    show "distinct ks" using Cons.prems(2) by simp
    have "fst ` set ?d1 = fst ` set d"
      using keys by (metis set_map)
    then show "set ks \<subseteq> fst ` set ?d1" using Cons.prems(3) by simp
  qed
  also have "map (\<lambda>(k, v). (k, if k \<in> set ks then v / s else v)) ?d1 =
             map (\<lambda>(k', v'). (k', if k' \<in> set (k # ks) then v' / s else v')) d"
  proof -
    have "k \<notin> set ks" using Cons.prems(2) by simp
    moreover have "v' = v" if "(k, v') \<in> set d" for v'
      using that v Cons.prems(1) by simp
    ultimately show ?thesis by (auto simp: split_def)
  qed
  finally show ?case using step by simp
qed

lemma divide_all:
  assumes "distinct (map fst d)" and "s \<noteq> 0"
  shows "for_each (divide_entry s) (map fst d) d = Inr (map (\<lambda>(k, v). (k, v / s)) d)"
proof -
  have "for_each (divide_entry s) (map fst d) d =
        Inr (map (\<lambda>(k, v). (k, if k \<in> set (map fst d) then v / s else v)) d)"
    using assms by (intro divide_entries) simp_all
  also have "map (\<lambda>(k, v). (k, if k \<in> set (map fst d) then v / s else v)) d =
             map (\<lambda>(k, v). (k, v / s)) d"
    by (rule map_cong [OF refl]) force
  finally show ?thesis .
qed

lemma divide_by_zero:
  assumes "d \<noteq> []"
  shows "for_each (divide_entry 0) (map fst d) d = Inl ZeroDivisionError"
proof -
  obtain k v d' where d: "d = (k, v) # d'" using assms by (cases d) auto
  then show ?thesis by (simp add: divide_entry_def getitem_def py_div_def)
qed

lemma normalize_category_at:
  assumes "bucket_ref P person typ = Inr b"
  shows "normalize_category P P person typ s c h =
         and_then (divide_entry s c (buckets h b))
           (\<lambda>d'. Inr (h\<lparr>buckets := (buckets h)(b := d')\<rparr>))"
proof (cases "getitem (buckets h b) c")
  case (Inl e)
  with assms show ?thesis
    by (simp add: normalize_category_def getbucket_def divide_entry_def)
next
  case (Inr val)
  with assms show ?thesis
    by (cases "py_div val s")
       (simp_all add: normalize_category_def getbucket_def divide_entry_def setitem_def)
qed

lemma for_each_normalize_category:
  assumes "bucket_ref P person typ = Inr b"
  shows "for_each (normalize_category P P person typ s) ks h =
         and_then (for_each (divide_entry s) ks (buckets h b))
           (\<lambda>d'. Inr (h\<lparr>buckets := (buckets h)(b := d')\<rparr>))"
proof (induction ks arbitrary: h)
  case Nil
  have "h\<lparr>buckets := (buckets h)(b := buckets h b)\<rparr> = h"
    by (simp only: fun_upd_triv) simp
  then show ?case by (simp only: for_each.simps and_then_Inr)
next
  case (Cons k ks)
  show ?case
  proof (cases "divide_entry s k (buckets h b)")
    case (Inl e)
    then show ?thesis by (simp add: normalize_category_at [OF assms])
  next
    case (Inr d1)
    let ?h1 = "h\<lparr>buckets := (buckets h)(b := d1)\<rparr>"
    have "for_each (normalize_category P P person typ s) (k # ks) h =
          for_each (normalize_category P P person typ s) ks ?h1"
      using Inr by (simp add: normalize_category_at [OF assms])
    also have "\<dots> = and_then (for_each (divide_entry s) ks (buckets ?h1 b))
           (\<lambda>d'. Inr (?h1\<lparr>buckets := (buckets ?h1)(b := d')\<rparr>))"
      by (rule Cons.IH)
    also have "buckets ?h1 b = d1" by simp
    also have "(\<lambda>d'. Inr (?h1\<lparr>buckets := (buckets ?h1)(b := d')\<rparr>) :: error + heap) =
               (\<lambda>d'. Inr (h\<lparr>buckets := (buckets h)(b := d')\<rparr>))"
      by (intro ext) simp
    finally have "for_each (normalize_category P P person typ s) (k # ks) h =
        and_then (for_each (divide_entry s) ks d1)
           (\<lambda>d'. Inr (h\<lparr>buckets := (buckets h)(b := d')\<rparr>))" .
    then show ?thesis by (simp only: for_each.simps Inr sum.case)
  qed
qed

lemma normalize_typ_step:
  assumes "bucket_ref P person typ = Inr b"
    and "distinct (map fst (buckets h b))" and "buckets h b \<noteq> []"
  shows "normalize_typ P P person typ h = norm_step b h"
proof (cases "sum_list (map snd (buckets h b)) = 0")
  case True
  then show ?thesis
    using assms(1) divide_by_zero [OF assms(3)]
    by (simp add: normalize_typ_def for_each_normalize_category [OF assms(1)] norm_step_def)
next
  case False
  then show ?thesis
    using assms(1) divide_all [OF assms(2) False]
    by (simp add: normalize_typ_def for_each_normalize_category [OF assms(1)] norm_step_def
        norm_at_def norm_dict_def)
qed

section \<open>The loops of \<open>normalize\<close>\<close>

lemma well_formed_keys:
  assumes "\<And>r. map fst (buckets h' r) = map fst (buckets h r)"
  shows "well_formed P h' = well_formed P h"
proof -
  have "buckets h' r \<noteq> [] \<longleftrightarrow> buckets h r \<noteq> []" for r
    using assms [of r] by (metis map_is_Nil_conv)
  then show ?thesis
    unfolding well_formed_def by (simp only: assms)
qed

lemma norm_step_keys:
  "norm_step b h = Inr h' \<Longrightarrow> map fst (buckets h' r) = map fst (buckets h r)"
  by (auto simp: norm_step_def norm_at_def split: if_splits)

lemma for_each_norm_step_keys:
  "for_each norm_step bs h = Inr h' \<Longrightarrow> map fst (buckets h' r) = map fst (buckets h r)"
proof (induction bs arbitrary: h)
  case Nil
  then show ?case by simp
next
  case (Cons b bs)
  then obtain h1 where 1: "norm_step b h = Inr h1" and 2: "for_each norm_step bs h1 = Inr h'"
    by (auto split: sum.splits)
  from Cons.IH [OF 2] norm_step_keys [OF 1] show ?case by simp
qed

lemma well_formed_resolves:
  assumes "well_formed P h" and "person \<in> fst ` set P" and "typ \<in> {''gene'', ''trait''}"
  shows "\<exists>b. bucket_ref P person typ = Inr b \<and> distinct (map fst (buckets h b)) \<and>
             buckets h b \<noteq> []"
proof -
  from assms(2) obtain dists where d: "map_of P person = Some dists"
    by (auto dest: weak_map_of_SomeI)
  then have "(person, dists) \<in> set P" by (rule map_of_SomeD)
  with assms(1) have "list_all (\<lambda>typ. case map_of dists typ of
                            None \<Rightarrow> False
                          | Some b \<Rightarrow> distinct (map fst (buckets h b)) \<and> buckets h b \<noteq> [])
                  [''gene'', ''trait'']"
    unfolding well_formed_def list_all_iff by blast
  with assms(3) obtain b where "map_of dists typ = Some b"
      "distinct (map fst (buckets h b))" "buckets h b \<noteq> []"
    by (auto split: option.splits)
  with d show ?thesis
    by (simp add: bucket_ref_def getitem_def)
qed

lemma typ_loop:
  assumes "well_formed P h" and "person \<in> fst ` set P"
  shows "for_each (normalize_typ P P person) [''gene'', ''trait''] h =
         for_each norm_step (typ_refs P person) h"
proof -
  from well_formed_resolves [OF assms, of "''gene''"] obtain g where
    g: "bucket_ref P person ''gene'' = Inr g" "distinct (map fst (buckets h g))"
       "buckets h g \<noteq> []" by auto
  from well_formed_resolves [OF assms, of "''trait''"] obtain t where
    t: "bucket_ref P person ''trait'' = Inr t" by auto
  have refs: "typ_refs P person = [g, t]"
    using g(1) t by (simp add: typ_refs_def)
  have first: "normalize_typ P P person ''gene'' h = norm_step g h"
    using g by (rule normalize_typ_step)
  show ?thesis
  proof (cases "norm_step g h")
    case (Inl e)
    with first refs show ?thesis by simp
  next
    case (Inr h1)
    then have "well_formed P h1"
      using assms(1) well_formed_keys [of h1 h P] norm_step_keys [OF Inr] by simp
    from well_formed_resolves [OF this assms(2), of "''trait''"] t
    have "distinct (map fst (buckets h1 t))" "buckets h1 t \<noteq> []" by auto
    with t have "normalize_typ P P person ''trait'' h1 = norm_step t h1"
      by (rule normalize_typ_step)
    with first refs Inr show ?thesis by (simp split: sum.splits)
  qed
qed

lemma person_loop:
  assumes "well_formed P h" and "set xs \<subseteq> fst ` set P"
  shows "for_each (\<lambda>person h. for_each (normalize_typ P P person) [''gene'', ''trait''] h) xs h =
         for_each norm_step (concat (map (typ_refs P) xs)) h"
  using assms
proof (induction xs arbitrary: h)
  case Nil
  then show ?case by simp
next
  case (Cons x xs)
  have first: "for_each (normalize_typ P P x) [''gene'', ''trait''] h =
               for_each norm_step (typ_refs P x) h"
    using Cons.prems by (intro typ_loop) auto
  show ?case
  proof (cases "for_each norm_step (typ_refs P x) h")
    case (Inl e)
    with first show ?thesis by (simp add: for_each_append)
  next
    case (Inr h1)
    then have "well_formed P h1"
      using Cons.prems(1) well_formed_keys [of h1 h P] for_each_norm_step_keys [OF Inr] by simp
    then have "for_each (\<lambda>person h. for_each (normalize_typ P P person) [''gene'', ''trait''] h)
                 xs h1 = for_each norm_step (concat (map (typ_refs P) xs)) h1"
      using Cons.prems(2) by (intro Cons.IH) auto
    with first Inr show ?thesis by (simp add: for_each_append)
  qed
qed

lemma normalize_visited:
  assumes "well_formed P h"
  shows "normalize P h = and_then (for_each norm_step (visited P) h) (\<lambda>h'. Inr (P, h'))"
  using person_loop [OF assms, of "map fst P"]
  by (simp add: normalize_def copy_def visited_def)

lemma buckets_norm_at:
  "buckets (norm_at b h) r = (if r = b then norm_dict (buckets h b) else buckets h r)"
  by (simp add: norm_at_def)

lemma for_each_norm_step:
  "for_each norm_step bs h =
     (if \<exists>b \<in> set bs. sum_list (map snd (buckets h b)) = 0 then Inl ZeroDivisionError
      else Inr (fold norm_at bs h))"
proof (induction bs arbitrary: h)
  case Nil
  show ?case by simp
next
  case (Cons b bs)
  show ?case
  proof (cases "sum_list (map snd (buckets h b)) = 0")
    case True
    then show ?thesis by (simp add: norm_step_def)
  next
    case False
    have "sum_list (map snd (buckets (norm_at b h) r)) = 0 \<longleftrightarrow>
          sum_list (map snd (buckets h r)) = 0" for r
      using False sum_norm_dict [OF False] by (simp add: buckets_norm_at)
    then have "(\<exists>r \<in> set bs. sum_list (map snd (buckets (norm_at b h) r)) = 0) \<longleftrightarrow>
               (\<exists>r \<in> set bs. sum_list (map snd (buckets h r)) = 0)"
      by simp
    moreover have "norm_step b h = Inr (norm_at b h)"
      using False by (simp add: norm_step_def)
    then have "for_each norm_step (b # bs) h = for_each norm_step bs (norm_at b h)"
      by simp
    ultimately show ?thesis
      using False by (simp only: Cons.IH) simp
  qed
qed

lemma buckets_fold_norm_at:
  "\<forall>b \<in> set bs. sum_list (map snd (buckets h b)) \<noteq> 0 \<Longrightarrow>
   buckets (fold norm_at bs h) r =
     (if r \<in> set bs then norm_dict (buckets h r) else buckets h r)"
proof (induction bs arbitrary: h)
  case Nil
  show ?case by simp
next
  case (Cons b bs)
  then have nz: "sum_list (map snd (buckets h b)) \<noteq> 0" by simp
  have "\<forall>r \<in> set bs. sum_list (map snd (buckets (norm_at b h) r)) \<noteq> 0"
    using Cons.prems sum_norm_dict [OF nz] by (simp add: buckets_norm_at)
  then have "buckets (fold norm_at bs (norm_at b h)) r =
     (if r \<in> set bs then norm_dict (buckets (norm_at b h) r) else buckets (norm_at b h) r)"
    by (rule Cons.IH)
  then show ?case
    using norm_dict_idem [OF nz] by (simp add: buckets_norm_at)
qed

lemma visited_iff:
  "b \<in> set (visited P) \<longleftrightarrow>
     (\<exists>person typ. typ \<in> {''gene'', ''trait''} \<and> bucket_ref P person typ = Inr b)"
proof
  assume "b \<in> set (visited P)"
  then obtain person where "b \<in> set (typ_refs P person)"
    by (auto simp: visited_def)
  then consider "bucket_ref P person ''gene'' = Inr b" | "bucket_ref P person ''trait'' = Inr b"
    by (auto simp: typ_refs_def split: sum.splits)
  then show "\<exists>person typ. typ \<in> {''gene'', ''trait''} \<and> bucket_ref P person typ = Inr b"
    by cases blast+
next
  assume "\<exists>person typ. typ \<in> {''gene'', ''trait''} \<and> bucket_ref P person typ = Inr b"
  then obtain person ty where ty: "ty \<in> {''gene'', ''trait''}"
    and b: "bucket_ref P person ty = Inr b" by blast
  from b obtain dists where "map_of P person = Some dists"
    by (auto simp: bucket_ref_def getitem_def and_then_def split: option.splits)
  then have "person \<in> set (map fst P)"
    by (auto dest: map_of_SomeD intro: rev_image_eqI)
  moreover have "b \<in> set (typ_refs P person)"
    using ty b by (auto simp: typ_refs_def)
  ultimately show "b \<in> set (visited P)"
    unfolding visited_def set_concat set_map by blast
qed

lemma map_of_norm_dict:
  assumes "distinct (map fst d)" and "(k, v) \<in> set d"
  shows "map_of (norm_dict d) k = Some (v / sum_list (map snd d))"
proof -
  have "map_of (norm_dict d) = map_option (\<lambda>v. v / sum_list (map snd d)) \<circ> map_of d"
    unfolding norm_dict_def by (rule map_of_map)
  moreover have "map_of d k = Some v" using assms by simp
  ultimately show ?thesis by simp
qed

section \<open>The table \<open>main\<close> hands to \<open>normalize\<close> is well formed\<close>

lemma new_table_frame:
  "new_table names h = (tab, h') \<Longrightarrow>
   next_ref h \<le> next_ref h' \<and> (\<forall>r < next_ref h. buckets h' r = buckets h r)"
proof (induction names arbitrary: h tab h')
  case Nil
  then show ?case by simp
next
  case (Cons person rest)
  obtain g h1 where a1: "alloc [(Copies 2, 0), (Copies 1, 0), (Copies 0, 0)] h = (g, h1)"
    by (cases "alloc [(Copies 2, 0), (Copies 1, 0), (Copies 0, 0)] h")
  obtain t h2 where a2: "alloc [(Flag True, 0), (Flag False, 0)] h1 = (t, h2)"
    by (cases "alloc [(Flag True, 0), (Flag False, 0)] h1")
  obtain tab' h3 where r: "new_table rest h2 = (tab', h3)"
    by (cases "new_table rest h2")
  from Cons.prems a1 a2 r have h': "h' = h3" by simp
  from a1 a2 have "next_ref h2 = next_ref h + 2"
    and "\<forall>r < next_ref h. buckets h2 r = buckets h r"
    by (auto simp: alloc_def)
  with Cons.IH [OF r] show ?case unfolding h' by auto
qed

lemma new_table_well_formed:
  "new_table names h = (tab, h') \<Longrightarrow> well_formed tab h'"
proof (induction names arbitrary: h tab h')
  case Nil
  then show ?case by (simp add: well_formed_def)
next
  case (Cons person rest)
  obtain g h1 where a1: "alloc [(Copies 2, 0), (Copies 1, 0), (Copies 0, 0)] h = (g, h1)"
    by (cases "alloc [(Copies 2, 0), (Copies 1, 0), (Copies 0, 0)] h")
  obtain t h2 where a2: "alloc [(Flag True, 0), (Flag False, 0)] h1 = (t, h2)"
    by (cases "alloc [(Flag True, 0), (Flag False, 0)] h1")
  obtain tab' h3 where r: "new_table rest h2 = (tab', h3)"
    by (cases "new_table rest h2")
  from Cons.prems a1 a2 r have res: "tab = (person, [(''gene'', g), (''trait'', t)]) # tab'"
    "h' = h3" by simp_all
  from a1 a2 have refs: "g < next_ref h2" "t < next_ref h2"
    and cells: "buckets h2 g = [(Copies 2, 0), (Copies 1, 0), (Copies 0, 0)]"
      "buckets h2 t = [(Flag True, 0), (Flag False, 0)]"
    by (auto simp: alloc_def)
  from new_table_frame [OF r] refs cells
  have "buckets h3 g = [(Copies 2, 0), (Copies 1, 0), (Copies 0, 0)]"
    "buckets h3 t = [(Flag True, 0), (Flag False, 0)]" by simp_all
  moreover have "well_formed tab' h3" using r by (rule Cons.IH)
  ultimately show ?case unfolding res by (simp add: well_formed_def)
qed

lemma setitem_keys:
  assumes "setitem P person typ k v h = Inr h'" and "getbucket P person typ k h = Inr w"
  shows "map fst (buckets h' r) = map fst (buckets h r)"
proof -
  from assms(2) obtain b where b: "bucket_ref P person typ = Inr b"
    and w: "getitem (buckets h b) k = Inr w"
    by (cases "bucket_ref P person typ") (auto simp: getbucket_def)
  from w have "k \<in> fst ` set (buckets h b)"
    by (auto simp: getitem_def split: option.splits dest: map_of_SomeD intro: rev_image_eqI)
  then have "map fst (AList.update k v (buckets h b)) = map fst (buckets h b)"
    by (simp add: update_keys)
  with assms(1) b show ?thesis by (auto simp: setitem_def)
qed

lemma add_item_keys:
  "add_item P person typ k p h = Inr h' \<Longrightarrow> map fst (buckets h' r) = map fst (buckets h r)"
proof -
  assume a: "add_item P person typ k p h = Inr h'"
  then obtain w where w: "getbucket P person typ k h = Inr w"
    by (cases "getbucket P person typ k h") (auto simp: add_item_def)
  with a have "setitem P person typ k (w + p) h = Inr h'" by (simp add: add_item_def)
  then show ?thesis using w by (rule setitem_keys)
qed

lemma for_each_keys:
  assumes "\<And>x h h' r. body x h = Inr h' \<Longrightarrow> map fst (buckets h' r) = map fst (buckets h r)"
  shows "for_each body xs h = Inr h' \<Longrightarrow> map fst (buckets h' r) = map fst (buckets h r)"
proof (induction xs arbitrary: h)
  case Nil
  then show ?case by simp
next
  case (Cons x xs)
  then obtain h1 where 1: "body x h = Inr h1" and 2: "for_each body xs h1 = Inr h'"
    by (auto split: sum.splits)
  from Cons.IH [OF 2] assms [OF 1] show ?case by simp
qed

lemma update_keys_same:
  "update P one_gene two_genes have_trait p h = Inr h' \<Longrightarrow>
   map fst (buckets h' r) = map fst (buckets h r)"
  unfolding update_def
proof (erule for_each_keys [rotated])
  fix x h h' r
  assume a: "(let gene_number = gene_number_of one_gene two_genes (Some x)
        in and_then (add_item P x ''gene'' (Copies gene_number) p h)
             (add_item P x ''trait'' (Flag (x \<in> have_trait)) p)) = Inr h'"
  then obtain h1 where 1: "add_item P x ''gene'' (Copies (gene_number_of one_gene two_genes (Some x))) p h = Inr h1"
    and 2: "add_item P x ''trait'' (Flag (x \<in> have_trait)) p h1 = Inr h'"
    by (cases "add_item P x ''gene'' (Copies (gene_number_of one_gene two_genes (Some x))) p h")
       (auto simp: Let_def)
  from add_item_keys [OF 2] add_item_keys [OF 1]
  show "map fst (buckets h' r) = map fst (buckets h r)" by simp
qed

lemma main_loops_keys:
  assumes "for_each (trait_body people P (set (map fst people)))
             (powerset (set (map fst people))) h = Inr h'"
  shows "map fst (buckets h' r) = map fst (buckets h r)"
proof -
  from assms have loops: "for_each (\<lambda>(have_trait, one_gene, two_genes) h.
         and_then (joint_probability people one_gene two_genes have_trait) (\<lambda>p.
           update P one_gene two_genes have_trait p h))
       (hypotheses people) h = Inr h'"
    unfolding main_loops_hypotheses .
  show ?thesis
  proof (rule for_each_keys [OF _ loops])
    fix x :: "string set \<times> string set \<times> string set" and h h' r
    obtain have_trait one_gene two_genes where x: "x = (have_trait, one_gene, two_genes)"
      by (cases x)
    assume "(case x of (have_trait, one_gene, two_genes) \<Rightarrow> \<lambda>h.
               and_then (joint_probability people one_gene two_genes have_trait)
                 (\<lambda>p. update P one_gene two_genes have_trait p h)) h = Inr h'"
    then obtain p where "update P one_gene two_genes have_trait p h = Inr h'"
      unfolding x by (cases "joint_probability people one_gene two_genes have_trait") auto
    then show "map fst (buckets h' r) = map fst (buckets h r)" by (rule update_keys_same)
  qed
qed

lemma main_table_well_formed:
  assumes "new_table (map fst people) empty_heap = (P, h0)"
    and "for_each (trait_body people P (set (map fst people)))
           (powerset (set (map fst people))) h0 = Inr h"
  shows "well_formed P h"
  using new_table_well_formed [OF assms(1)] well_formed_keys [of h h0 P]
    main_loops_keys [OF assms(2)] by simp

section \<open>What \<open>normalize\<close> does to a table\<close>

lemma normalize_closed:
  assumes "well_formed P h"
  shows "normalize P h =
     (if \<exists>b \<in> set (visited P). sum_list (map snd (buckets h b)) = 0
      then Inl ZeroDivisionError
      else Inr (P, fold norm_at (visited P) h))"
  by (simp add: normalize_visited [OF assms] for_each_norm_step)

lemma well_formed_example: "well_formed example_table example_heap"
  by (simp add: well_formed_def example_table_def example_heap_def)

lemma visited_example: "visited example_table = [0, 1]"
  by (simp add: visited_def typ_refs_def example_table_def bucket_ref_def getitem_def)

text \<open>
  Claim C2. On a well-formed table, if some person's gene or trait distribution has
  sum zero when \<open>normalize\<close> is called, the call raises \<open>ZeroDivisionError\<close>: it returns no
  table.
\<close>

theorem zero_sum_raises:
  assumes "well_formed probabilities h"
    and "typ \<in> {''gene'', ''trait''}"
    and "bucket_ref probabilities person typ = Inr b"
    and "sum_list (map snd (buckets h b)) = 0"
  shows "normalize probabilities h = Inl ZeroDivisionError"
proof -
  have "b \<in> set (visited probabilities)"
    unfolding visited_iff using assms(2,3) by blast
  with assms(4) have "\<exists>b \<in> set (visited probabilities). sum_list (map snd (buckets h b)) = 0"
    by blast
  then show ?thesis
    by (simp only: normalize_closed [OF assms(1)] if_True)
qed

theorem zero_sum_raises_witness:
  "well_formed example_table zero_heap \<and>
   bucket_ref example_table ''alice'' ''trait'' = Inr 1 \<and>
   sum_list (map snd (buckets zero_heap 1)) = 0 \<and>
   normalize example_table zero_heap = Inl ZeroDivisionError"
proof -
  have 1: "well_formed example_table zero_heap"
    by (simp add: well_formed_def example_table_def zero_heap_def alloc_def empty_heap_def)
  have 2: "''trait'' \<in> {''gene'', ''trait''}" by simp
  have 3: "bucket_ref example_table ''alice'' ''trait'' = Inr 1"
    by (simp add: bucket_ref_def example_table_def getitem_def)
  have 4: "sum_list (map snd (buckets zero_heap 1)) = 0"
    by (simp add: zero_heap_def alloc_def empty_heap_def)
  from zero_sum_raises [OF 1 2 3 4] 1 3 4 show ?thesis by blast
qed

lemma visitedD:
  "b \<in> set (visited P) \<Longrightarrow>
   \<exists>person typ. typ \<in> {''gene'', ''trait''} \<and> bucket_ref P person typ = Inr b"
  by (simp only: visited_iff)

lemma visitedI:
  "typ \<in> {''gene'', ''trait''} \<Longrightarrow> bucket_ref P person typ = Inr b \<Longrightarrow> b \<in> set (visited P)"
  unfolding visited_iff by (intro exI conjI)

lemma nonzero_visited:
  assumes "\<forall>person typ b. typ \<in> {''gene'', ''trait''} \<longrightarrow>
           bucket_ref probabilities person typ = Inr b \<longrightarrow>
           sum_list (map snd (buckets h b)) \<noteq> 0"
  shows "\<forall>b \<in> set (visited probabilities). sum_list (map snd (buckets h b)) \<noteq> 0"
proof
  fix b assume "b \<in> set (visited probabilities)"
  then obtain person ty where "ty \<in> {''gene'', ''trait''}"
      "bucket_ref probabilities person ty = Inr b"
    using visitedD by blast
  with assms show "sum_list (map snd (buckets h b)) \<noteq> 0" by blast
qed

text \<open>
  Claim C3. On a well-formed table in which every person's gene sum and trait sum are
  nonzero, \<open>normalize\<close> returns, and afterwards each of these distributions is the
  accumulated one with every bucket divided by the distribution's sum (same buckets, in
  the same order), so it sums to 1.
\<close>

theorem normalize_distributions:
  assumes "well_formed probabilities h"
    and "\<forall>person typ b. typ \<in> {''gene'', ''trait''} \<longrightarrow>
           bucket_ref probabilities person typ = Inr b \<longrightarrow>
           sum_list (map snd (buckets h b)) \<noteq> 0"
  shows "\<exists>normalized h'. normalize probabilities h = Inr (normalized, h') \<and>
           (\<forall>person typ b. typ \<in> {''gene'', ''trait''} \<longrightarrow>
              bucket_ref probabilities person typ = Inr b \<longrightarrow>
              buckets h' b = norm_dict (buckets h b) \<and>
              sum_list (map snd (buckets h' b)) = 1)"
proof -
  let ?h' = "fold norm_at (visited probabilities) h"
  have nz: "\<forall>b \<in> set (visited probabilities). sum_list (map snd (buckets h b)) \<noteq> 0"
    using assms(2) by (rule nonzero_visited)
  then have "\<not> (\<exists>b \<in> set (visited probabilities). sum_list (map snd (buckets h b)) = 0)"
    by blast
  then have res: "normalize probabilities h = Inr (probabilities, ?h')"
    by (simp only: normalize_closed [OF assms(1)] if_False)
  have each: "buckets ?h' b = norm_dict (buckets h b) \<and>
              sum_list (map snd (buckets ?h' b)) = 1"
    if "ty \<in> {''gene'', ''trait''}" "bucket_ref probabilities person ty = Inr b"
    for person ty b
  proof -
    have b: "b \<in> set (visited probabilities)"
      using that by (rule visitedI)
    with nz have "sum_list (map snd (buckets h b)) \<noteq> 0" by blast
    then have one: "sum_list (map snd (norm_dict (buckets h b))) = 1" by (rule sum_norm_dict)
    have "buckets ?h' b = norm_dict (buckets h b)"
      using b by (simp only: buckets_fold_norm_at [OF nz] if_True)
    with one show ?thesis by simp
  qed
  have "\<forall>person typ b. typ \<in> {''gene'', ''trait''} \<longrightarrow>
              bucket_ref probabilities person typ = Inr b \<longrightarrow>
              buckets ?h' b = norm_dict (buckets h b) \<and>
              sum_list (map snd (buckets ?h' b)) = 1"
    using each by blast
  with res show ?thesis
    by (intro exI [of _ probabilities] exI [of _ ?h'] conjI)
qed

theorem normalize_distributions_witness:
  "well_formed example_table example_heap \<and>
   bucket_ref example_table ''alice'' ''gene'' = Inr 0 \<and>
   bucket_ref example_table ''alice'' ''trait'' = Inr 1 \<and>
   (\<exists>normalized h'. normalize example_table example_heap = Inr (normalized, h') \<and>
      buckets h' 0 = [(Copies 2, 1 / 8), (Copies 1, 3 / 8), (Copies 0, 1 / 2)] \<and>
      buckets h' 1 = [(Flag True, 1 / 4), (Flag False, 3 / 4)] \<and>
      sum_list (map snd (buckets h' 0)) = 1 \<and> sum_list (map snd (buckets h' 1)) = 1)"
proof -
  have g: "bucket_ref example_table ''alice'' ''gene'' = Inr 0"
    and t: "bucket_ref example_table ''alice'' ''trait'' = Inr 1"
    by (simp_all add: bucket_ref_def example_table_def getitem_def)
  have nz: "\<forall>person typ b. typ \<in> {''gene'', ''trait''} \<longrightarrow>
           bucket_ref example_table person typ = Inr b \<longrightarrow>
           sum_list (map snd (buckets example_heap b)) \<noteq> 0"
  proof (intro allI impI)
    fix person ty b
    assume "ty \<in> {''gene'', ''trait''}" "bucket_ref example_table person ty = Inr b"
    then have "b \<in> set (visited example_table)"
      by (rule visitedI)
    then show "sum_list (map snd (buckets example_heap b)) \<noteq> 0"
      by (auto simp: visited_example example_heap_def)
  qed
  from normalize_distributions [OF well_formed_example nz] obtain normalized h' where
    n: "normalize example_table example_heap = Inr (normalized, h')"
    and d: "\<And>person ty b. ty \<in> {''gene'', ''trait''} \<Longrightarrow>
              bucket_ref example_table person ty = Inr b \<Longrightarrow>
              buckets h' b = norm_dict (buckets example_heap b) \<and>
              sum_list (map snd (buckets h' b)) = 1"
    by blast
  have gin: "''gene'' \<in> {''gene'', ''trait''}" and tin: "''trait'' \<in> {''gene'', ''trait''}"
    by simp_all
  from d [OF gin g] have g1: "buckets h' 0 = norm_dict (buckets example_heap 0)"
    and g2: "sum_list (map snd (buckets h' 0)) = 1" by blast+
  from d [OF tin t] have t1: "buckets h' 1 = norm_dict (buckets example_heap 1)"
    and t2: "sum_list (map snd (buckets h' 1)) = 1" by blast+
  have g3: "buckets h' 0 = [(Copies 2, 1 / 8), (Copies 1, 3 / 8), (Copies 0, 1 / 2)]"
    unfolding g1 by (simp add: norm_dict_def example_heap_def)
  have t3: "buckets h' 1 = [(Flag True, 1 / 4), (Flag False, 3 / 4)]"
    unfolding t1 by (simp add: norm_dict_def example_heap_def)
  have "\<exists>normalized h'. normalize example_table example_heap = Inr (normalized, h') \<and>
      buckets h' 0 = [(Copies 2, 1 / 8), (Copies 1, 3 / 8), (Copies 0, 1 / 2)] \<and>
      buckets h' 1 = [(Flag True, 1 / 4), (Flag False, 3 / 4)] \<and>
      sum_list (map snd (buckets h' 0)) = 1 \<and> sum_list (map snd (buckets h' 1)) = 1"
    using n g3 t3 g2 t2 by (intro exI [of _ normalized] exI [of _ h'] conjI)
  with well_formed_example g t show ?thesis by (intro conjI)
qed


text \<open>
  Claim C9. \<open>normalize\<close> works in place. The table it returns has the entries of its
  argument, bound to the same distribution dicts, and its writes go to those dicts: after
  the call, reading a bucket through the argument itself gives the accumulated mass
  divided by the distribution's sum, whether or not the caller keeps the returned table.
\<close>

theorem normalize_in_place:
  assumes "well_formed probabilities h"
    and "normalize probabilities h = Inr (normalized, h')"
  shows "normalized = probabilities \<and>
         (\<forall>person typ b. typ \<in> {''gene'', ''trait''} \<longrightarrow>
            bucket_ref probabilities person typ = Inr b \<longrightarrow>
            bucket_ref normalized person typ = Inr b \<and>
            buckets h' b = norm_dict (buckets h b) \<and>
            (\<forall>(category, v) \<in> set (buckets h b).
               getbucket probabilities person typ category h' =
                 Inr (v / sum_list (map snd (buckets h b)))))"
proof -
  from assms(2) have nz: "\<forall>b \<in> set (visited probabilities). sum_list (map snd (buckets h b)) \<noteq> 0"
    and res: "normalized = probabilities" "h' = fold norm_at (visited probabilities) h"
    by (auto simp: normalize_closed [OF assms(1)] split: if_splits)
  have "bucket_ref normalized person ty = Inr b \<and>
        buckets h' b = norm_dict (buckets h b) \<and>
        (\<forall>(category, v) \<in> set (buckets h b).
           getbucket probabilities person ty category h' =
             Inr (v / sum_list (map snd (buckets h b))))"
    if ty: "ty \<in> {''gene'', ''trait''}" and b: "bucket_ref probabilities person ty = Inr b"
    for person ty b
  proof -
    have "b \<in> set (visited probabilities)"
      using ty b by (rule visitedI)
    then have eq: "buckets h' b = norm_dict (buckets h b)"
      unfolding res by (simp add: buckets_fold_norm_at [OF nz])
    from b have "person \<in> fst ` set probabilities"
      by (auto simp: bucket_ref_def getitem_def and_then_def split: option.splits
          dest: map_of_SomeD intro: rev_image_eqI)
    from well_formed_resolves [OF assms(1) this ty] b
    have dist: "distinct (map fst (buckets h b))" by auto
    have "getbucket probabilities person ty category h' =
            Inr (v / sum_list (map snd (buckets h b)))"
      if "(category, v) \<in> set (buckets h b)" for category v
      using map_of_norm_dict [OF dist that] b
      by (simp add: getbucket_def eq getitem_def)
    with eq b res(1) show ?thesis by blast
  qed
  with res(1) show ?thesis by blast
qed

theorem normalize_in_place_witness:
  "well_formed example_table example_heap \<and>
   bucket_ref example_table ''alice'' ''trait'' = Inr 1 \<and>
   getbucket example_table ''alice'' ''trait'' (Flag True) example_heap = Inr 1 \<and>
   (\<exists>normalized h'. normalize example_table example_heap = Inr (normalized, h') \<and>
      normalized = example_table \<and>
      getbucket example_table ''alice'' ''trait'' (Flag True) h' = Inr (1 / 4))"
proof -
  have t: "bucket_ref example_table ''alice'' ''trait'' = Inr 1"
    by (simp add: bucket_ref_def example_table_def getitem_def)
  have before: "getbucket example_table ''alice'' ''trait'' (Flag True) example_heap = Inr 1"
    by (simp add: getbucket_def t example_heap_def getitem_def)
  have "\<not> (\<exists>b \<in> set (visited example_table). sum_list (map snd (buckets example_heap b)) = 0)"
    by (simp add: visited_example example_heap_def)
  then obtain h' where n: "normalize example_table example_heap = Inr (example_table, h')"
    by (simp add: normalize_closed [OF well_formed_example])
  from normalize_in_place [OF well_formed_example n] t
  have "\<forall>(category, v) \<in> set (buckets example_heap 1).
          getbucket example_table ''alice'' ''trait'' category h' =
            Inr (v / sum_list (map snd (buckets example_heap 1)))"
    by blast
  then have "getbucket example_table ''alice'' ''trait'' (Flag True) h' = Inr (1 / 4)"
    by (simp add: example_heap_def)
  with well_formed_example t before n show ?thesis by blast
qed

end
